theory Spec2Isabelle
  imports Main "HOL-Library.Word"
begin

section \<open>Electronic lock: the sketches as state transformers\<close>

text \<open>
  The repository holds several Arduino sketches that evolve one design. Two of them are
  embedded here:
  \<^item> the RFID sketch with session mode (``Arduino Solenoid Lock Control with RFID -
    Improved Version''), whose functions keep their names;
  \<^item> the first timed sketch \<^verbatim>\<open>lock_v1.ino\<close>, whose names carry the prefix \<open>v1_\<close>.

  A sketch is a set of global variables, output pins and the millisecond counter
  \<^verbatim>\<open>millis()\<close>. Each is a field of a record; a function of the sketch takes the record and
  returns it updated. \<^verbatim>\<open>unsigned long\<close> is 32 bits wide on the AVR boards the sketches
  target, so times are \<open>32 word\<close> and subtraction wraps. Everything a function sends to
  the outside (pin writes, serial output, blocking delays, processor suspension) is
  appended to the field \<open>trace\<close>, so that what happened during a call can be read off
  the result.
\<close>

type_synonym byte = "8 word"
type_synonym ulong = "32 word"

datatype level = LOW | HIGH

datatype pin = SOLENOID_PIN | LED_GREEN_PIN | LED_RED_PIN

datatype event =
    Println string
  | Print string
  | PrintByte byte nat
  | PrintNum ulong
  | PrintPICCType byte
  | PinWrite pin level
  | Delay ulong
  | Suspend

subsection \<open>Configuration\<close>

definition authorizedUIDs :: "byte list list" where
  "authorizedUIDs = [[0xB3, 0x4A, 0x9E, 0x29], [0x12, 0x34, 0x56, 0x78]]"

definition NUM_AUTHORIZED_CARDS :: nat where
  "NUM_AUTHORIZED_CARDS = length authorizedUIDs"

definition UNLOCK_TIME :: ulong where
  "UNLOCK_TIME = 10000"

definition SESSION_DURATION :: ulong where
  "SESSION_DURATION = 7200000"

definition SLEEP_AFTER_TIME :: ulong where
  "SLEEP_AFTER_TIME = 60000"

definition DEBOUNCE_DELAY :: ulong where
  "DEBOUNCE_DELAY = 50"

subsection \<open>The card reader, as the sketch sees it\<close>

text \<open>
  The MFRC522 driver is a library outside the repository. The sketch uses the results of
  \<^verbatim>\<open>PICC_IsNewCardPresent()\<close> and \<^verbatim>\<open>PICC_ReadCardSerial()\<close> and the structure
  \<^verbatim>\<open>rfid.uid\<close> (a size, a buffer of ten bytes and the SAK byte).
\<close>

record uid_t =
  uid_size :: byte
  uidByte :: "byte list"
  sak :: byte

record mfrc522 =
  newCardPresent :: bool
  readCardSerial :: bool
  uid :: uid_t

subsection \<open>State of the RFID sketch\<close>

record lock =
  solenoidPin :: level
  ledGreen :: level
  ledRed :: level
  unlockStartTime :: ulong
  sessionStartTime :: ulong
  lastActivityTime :: ulong
  lastDebounceTime :: ulong
  unlockTimerActive :: bool
  sessionModeActive :: bool
  unlockedByAuth :: bool
  manualUnlocked :: bool
  sleepEnabled :: bool
  lastButtonState :: level
  buttonState :: level
  adcEnabled :: bool
  clock :: ulong
  trace :: "event list"

text \<open>\<open>clock\<close> is the value \<^verbatim>\<open>millis()\<close> returns. Only \<open>delay\<close> and the passing of time
  between two calls (\<open>elapse\<close>) move it.\<close>

definition elapse :: "ulong \<Rightarrow> lock \<Rightarrow> lock" where
  "elapse d s = s\<lparr>clock := clock s + d\<rparr>"

text \<open>The variables, pins and counter of a state, without the record of what was sent
  out.\<close>

definition vars :: "lock \<Rightarrow> lock" where
  "vars s = s\<lparr>trace := []\<rparr>"

definition emit :: "event \<Rightarrow> lock \<Rightarrow> lock" where
  "emit e s = s\<lparr>trace := trace s @ [e]\<rparr>"

definition println :: "string \<Rightarrow> lock \<Rightarrow> lock" where
  "println m s = emit (Println m) s"

definition delay :: "ulong \<Rightarrow> lock \<Rightarrow> lock" where
  "delay ms s = emit (Delay ms) (s\<lparr>clock := clock s + ms\<rparr>)"

definition digitalWrite :: "pin \<Rightarrow> level \<Rightarrow> lock \<Rightarrow> lock" where
  "digitalWrite p v s =
     emit (PinWrite p v)
       (case p of
          SOLENOID_PIN \<Rightarrow> s\<lparr>solenoidPin := v\<rparr>
        | LED_GREEN_PIN \<Rightarrow> s\<lparr>ledGreen := v\<rparr>
        | LED_RED_PIN \<Rightarrow> s\<lparr>ledRed := v\<rparr>)"

definition digitalRead :: "pin \<Rightarrow> lock \<Rightarrow> level" where
  "digitalRead p s =
     (case p of
        SOLENOID_PIN \<Rightarrow> solenoidPin s
      | LED_GREEN_PIN \<Rightarrow> ledGreen s
      | LED_RED_PIN \<Rightarrow> ledRed s)"

definition isDoorUnlocked :: "lock \<Rightarrow> bool" where
  "isDoorUnlocked s = (digitalRead SOLENOID_PIN s = HIGH)"

definition updateLEDs :: "bool \<Rightarrow> lock \<Rightarrow> lock" where
  "updateLEDs unlocked s =
     (if unlocked
      then digitalWrite LED_RED_PIN LOW (digitalWrite LED_GREEN_PIN HIGH s)
      else digitalWrite LED_RED_PIN HIGH (digitalWrite LED_GREEN_PIN LOW s))"

text \<open>The loop that flashes the red LED; the first argument counts the iterations that
  remain (the sketch runs it three times).\<close>

fun flashRed :: "nat \<Rightarrow> lock \<Rightarrow> lock" where
  "flashRed 0 s = s"
| "flashRed (Suc n) s =
     flashRed n (delay 100 (digitalWrite LED_RED_PIN LOW
       (delay 100 (digitalWrite LED_RED_PIN HIGH s))))"

text \<open>The start-up flash of \<^verbatim>\<open>setup()\<close>, run twice.\<close>

fun flashBoth :: "nat \<Rightarrow> lock \<Rightarrow> lock" where
  "flashBoth 0 s = s"
| "flashBoth (Suc n) s =
     flashBoth n (delay 200 (digitalWrite LED_RED_PIN LOW (digitalWrite LED_GREEN_PIN LOW
       (delay 200 (digitalWrite LED_RED_PIN HIGH (digitalWrite LED_GREEN_PIN HIGH s))))))"

definition toggleSessionMode :: "lock \<Rightarrow> lock" where
  "toggleSessionMode s =
     (let s = s\<lparr>sessionModeActive := \<not> sessionModeActive s\<rparr> in
      if sessionModeActive s
      then println ''Session mode activated for 2 hours'' (s\<lparr>sessionStartTime := clock s\<rparr>)
      else println ''Session mode deactivated'' s)"

definition unlockDoor :: "lock \<Rightarrow> lock" where
  "unlockDoor s =
     (let s = println ''Unlocking door...'' s;
          s = digitalWrite SOLENOID_PIN HIGH s;
          s = updateLEDs True s;
          s = s\<lparr>unlockStartTime := clock s\<rparr>;
          s = s\<lparr>unlockTimerActive := True\<rparr>;
          s = s\<lparr>lastActivityTime := clock s\<rparr>;
          s = s\<lparr>unlockedByAuth := True\<rparr>;
          s = s\<lparr>manualUnlocked := False\<rparr>;
          s = println ''Door unlocked - will auto-lock after timeout'' s
      in if \<not> sessionModeActive s then toggleSessionMode s else s)"

definition lockDoor :: "lock \<Rightarrow> lock" where
  "lockDoor s =
     (let s = println ''Locking door...'' s;
          s = digitalWrite SOLENOID_PIN LOW s;
          s = updateLEDs False s;
          s = s\<lparr>unlockTimerActive := False\<rparr>;
          s = s\<lparr>lastActivityTime := clock s\<rparr>
      in println ''Door locked'' s)"

definition printStatus :: "lock \<Rightarrow> lock" where
  "printStatus s =
     (let s = println ''----------------------------------------'' s;
          s = println ''System Status:'' s;
          s = println (''Door is: '' @
                (if digitalRead SOLENOID_PIN s = HIGH then ''UNLOCKED'' else ''LOCKED'')) s;
          s = println (''Session mode: '' @
                (if sessionModeActive s then ''ACTIVE'' else ''INACTIVE'')) s;
          s = (if sessionModeActive s
               then (let sessionTimeLeft = SESSION_DURATION - (clock s - sessionStartTime s);
                         s = emit (Print ''Session time remaining: '') s;
                         s = emit (PrintNum (sessionTimeLeft div 60000)) s
                     in println '' minutes'' s)
               else s);
          s = println (''Sleep mode: '' @
                (if sleepEnabled s then ''ENABLED'' else ''DISABLED'')) s
      in println ''----------------------------------------'' s)"

subsection \<open>Credential check\<close>

text \<open>The two loops that print the UID, over the first \<open>uid.size\<close> bytes of the buffer
  (the driver keeps \<open>uid.size\<close> within the ten bytes).\<close>

fun logHex :: "byte list \<Rightarrow> lock \<Rightarrow> lock" where
  "logHex [] s = s"
| "logHex (b # bs) s =
     logHex bs (emit (PrintByte b 16) (emit (Print (if b < 0x10 then '' 0'' else '' '')) s))"

fun logDec :: "byte list \<Rightarrow> lock \<Rightarrow> lock" where
  "logDec [] s = s"
| "logDec (b # bs) s = logDec bs (emit (PrintByte b 10) (emit (Print '' '') s))"

definition logRFIDDetails :: "uid_t \<Rightarrow> lock \<Rightarrow> lock" where
  "logRFIDDetails u s =
     (let s = println ''--------- RFID Card Details ---------'' s;
          s = emit (Print ''Card UID (HEX): '') s;
          s = logHex (take (unat (uid_size u)) (uidByte u)) s;
          s = println [] s;
          s = emit (Print ''Card UID (DEC): '') s;
          s = logDec (take (unat (uid_size u)) (uidByte u)) s;
          s = println [] s;
          s = emit (Print ''PICC Type: '') s;
          s = emit (PrintPICCType (sak u)) s
      in println ''--------------------------------------'' s)"

text \<open>The inner loop of \<^verbatim>\<open>checkRFID\<close>: bytes \<open>i\<close>, \<open>i + 1\<close>, ... below 4 of the scanned
  UID against one entry of the allow-list, leaving at the first difference.\<close>

function matchBytes :: "nat \<Rightarrow> byte list \<Rightarrow> byte list \<Rightarrow> bool" where
  "matchBytes i scanned entry =
     (if i < 4
      then (if scanned ! i \<noteq> entry ! i then False else matchBytes (i + 1) scanned entry)
      else True)"
  by pat_completeness auto
termination
  by (relation "measure (\<lambda>(i, scanned, entry). 4 - i)") auto

text \<open>The outer loop: entries \<open>cardIdx\<close>, \<open>cardIdx + 1\<close>, ... of the allow-list, leaving at
  the first entry that matches. The result is the flag \<^verbatim>\<open>authorized\<close>.\<close>

function searchCards :: "nat \<Rightarrow> byte list \<Rightarrow> bool" where
  "searchCards cardIdx scanned =
     (if cardIdx < NUM_AUTHORIZED_CARDS
      then (if matchBytes 0 scanned (authorizedUIDs ! cardIdx) then True
            else searchCards (cardIdx + 1) scanned)
      else False)"
  by pat_completeness auto
termination
  by (relation "measure (\<lambda>(cardIdx, scanned). NUM_AUTHORIZED_CARDS - cardIdx)") auto

text \<open>Both equations recurse without a pattern; they are unfolded by hand where needed.\<close>

declare matchBytes.simps [simp del] searchCards.simps [simp del]

definition checkRFID :: "mfrc522 \<Rightarrow> lock \<Rightarrow> lock" where
  "checkRFID rfid s =
     (if isDoorUnlocked s then s
      else if \<not> newCardPresent rfid then s
      else if \<not> readCardSerial rfid then s
      else
        (let s = logRFIDDetails (uid rfid) s;
             authorized = searchCards 0 (uidByte (uid rfid));
             s = (if authorized
                  then unlockDoor (println ''Authorized card detected'' s)
                  else updateLEDs False (flashRed 3
                         (println ''Unauthorized card - access denied'' s)))
         in s\<lparr>lastActivityTime := clock s\<rparr>))"

subsection \<open>Serial commands\<close>

text \<open>The \<^verbatim>\<open>while (Serial.available() > 0)\<close> loop, over the characters waiting in the
  receive buffer.\<close>

fun checkSerial :: "char list \<Rightarrow> lock \<Rightarrow> lock" where
  "checkSerial [] s = s"
| "checkSerial (command # rest) s =
     (let s = s\<lparr>lastActivityTime := clock s\<rparr> in
      if command = CHR 0x0A \<or> command = CHR 0x0D \<or> command = CHR '' '' \<or> command = CHR 0x09
      then checkSerial rest s
      else if isDoorUnlocked s
      then checkSerial rest
             (if command = CHR ''l'' \<or> command = CHR ''L'' then lockDoor s
              else if command = CHR ''s'' \<or> command = CHR ''S'' then printStatus s
              else s)
      else checkSerial rest (delay 10
             (if command = CHR ''u'' \<or> command = CHR ''U'' then unlockDoor s
              else if command = CHR ''l'' \<or> command = CHR ''L'' then lockDoor s
              else if command = CHR ''s'' \<or> command = CHR ''S'' then printStatus s
              else if command = CHR ''m'' \<or> command = CHR ''M'' then toggleSessionMode s
              else if command = CHR ''z'' \<or> command = CHR ''Z''
              then (let s = s\<lparr>sleepEnabled := \<not> sleepEnabled s\<rparr> in
                    println (if sleepEnabled s then ''Sleep mode enabled''
                             else ''Sleep mode disabled'') s)
              else println [command] (emit (Print ''Unknown command: '') s))))"

subsection \<open>Manual button\<close>

definition checkManualUnlock :: "level \<Rightarrow> lock \<Rightarrow> lock" where
  "checkManualUnlock pinLevel s =
     (if isDoorUnlocked s then s
      else
        (let reading = pinLevel;
             s = (if reading \<noteq> lastButtonState s then s\<lparr>lastDebounceTime := clock s\<rparr> else s);
             s = (if clock s - lastDebounceTime s > DEBOUNCE_DELAY
                  then (if reading \<noteq> buttonState s
                        then (let s = s\<lparr>buttonState := reading\<rparr> in
                              if buttonState s = LOW
                              then (let s = println ''Button pressed'' s;
                                        s = s\<lparr>lastActivityTime := clock s\<rparr> in
                                    if (unlockedByAuth s \<and> \<not> manualUnlocked s) \<or> sessionModeActive s
                                    then (let s = println ''Manual unlock triggered'' s;
                                              s = digitalWrite SOLENOID_PIN HIGH s;
                                              s = updateLEDs True s;
                                              s = delay UNLOCK_TIME s;
                                              s = digitalWrite SOLENOID_PIN LOW s;
                                              s = updateLEDs False s;
                                              s = println ''Door re-locked after manual unlock'' s
                                          in s\<lparr>manualUnlocked := True\<rparr>)
                                    else (let s = println
                                                ''Button press ignored - authentication required'' s;
                                              s = flashRed 3 s
                                          in updateLEDs False s))
                              else s)
                        else s)
                  else s)
         in s\<lparr>lastButtonState := reading\<rparr>))"

subsection \<open>Timers and power management\<close>

definition handleUnlockTimer :: "lock \<Rightarrow> lock" where
  "handleUnlockTimer s =
     (if unlockTimerActive s
      then (if clock s - unlockStartTime s \<ge> UNLOCK_TIME
            then (lockDoor s)\<lparr>unlockTimerActive := False\<rparr>
            else s)
      else s)"

definition handleSessionTimer :: "lock \<Rightarrow> lock" where
  "handleSessionTimer s =
     (if sessionModeActive s
      then (if clock s - sessionStartTime s \<ge> SESSION_DURATION
            then println ''Session mode expired'' (s\<lparr>sessionModeActive := False\<rparr>)
            else s)
      else s)"

text \<open>\<^verbatim>\<open>sleep_mode()\<close> halts the processor until the button interrupt fires; the handler
  \<^verbatim>\<open>wakeUp\<close> is empty. The millisecond counter stands still in power-down, so the
  suspension leaves only the event \<open>Suspend\<close>.\<close>

definition enterSleepMode :: "lock \<Rightarrow> lock" where
  "enterSleepMode s =
     (let s = println ''Entering sleep mode to save power...'' s;
          s = delay 100 s;
          s = digitalWrite LED_GREEN_PIN LOW s;
          s = digitalWrite LED_RED_PIN LOW s;
          s = s\<lparr>adcEnabled := False\<rparr>;
          s = emit Suspend s;
          s = s\<lparr>adcEnabled := True\<rparr>;
          s = s\<lparr>lastActivityTime := clock s\<rparr>;
          s = updateLEDs (digitalRead SOLENOID_PIN s = HIGH) s
      in println ''Waking up from sleep mode'' s)"

definition checkSleep :: "lock \<Rightarrow> lock" where
  "checkSleep s =
     (if sleepEnabled s \<and> clock s - lastActivityTime s > SLEEP_AFTER_TIME
      then (if digitalRead SOLENOID_PIN s = HIGH then s else enterSleepMode s)
      else s)"

subsection \<open>Start-up and the scheduling loop\<close>

text \<open>The globals as their initialisers leave them, with the pins low and the counter at
  the time \<open>t0\<close> at which \<^verbatim>\<open>setup()\<close> starts.\<close>

definition power_on :: "ulong \<Rightarrow> lock" where
  "power_on t0 =
     \<lparr>solenoidPin = LOW, ledGreen = LOW, ledRed = LOW,
      unlockStartTime = 0, sessionStartTime = 0, lastActivityTime = 0, lastDebounceTime = 0,
      unlockTimerActive = False, sessionModeActive = False, unlockedByAuth = False,
      manualUnlocked = False, sleepEnabled = True,
      lastButtonState = HIGH, buttonState = HIGH, adcEnabled = True,
      clock = t0, trace = []\<rparr>"

definition setup_sketch :: "lock \<Rightarrow> lock" where
  "setup_sketch s =
     (let s = digitalWrite SOLENOID_PIN LOW s;
          s = updateLEDs False s;
          s = s\<lparr>lastActivityTime := clock s\<rparr>;
          s = flashBoth 2 s;
          s = updateLEDs False s;
          s = println ''Solenoid Lock Control System with RFID'' s;
          s = println ''DEBUG mode is ON - Serial commands are enabled'' s;
          s = println
            ''Commands: U=Unlock, L=Lock, S=Status, M=Toggle Session Mode, Z=Toggle Sleep Mode'' s
      in println ''Place your RFID card near the reader to unlock...'' s)"

record tick_input =
  rfidIn :: mfrc522
  serialIn :: "char list"
  buttonIn :: level

definition loop :: "tick_input \<Rightarrow> lock \<Rightarrow> lock" where
  "loop inp s =
     (let s = checkRFID (rfidIn inp) s;
          s = checkSerial (serialIn inp) s;
          s = checkManualUnlock (buttonIn inp) s;
          s = handleUnlockTimer s;
          s = handleSessionTimer s
      in checkSleep s)"

subsection \<open>The conditions the sketch tests, by name\<close>

text \<open>The value \<^verbatim>\<open>millis()\<close> returns \<open>t\<close> milliseconds after start: the count wrapped to
  32 bits.\<close>

definition millis :: "nat \<Rightarrow> ulong" where
  "millis t = of_nat t"

text \<open>The test of \<^verbatim>\<open>handleUnlockTimer\<close>: the unlock timer is running and has run out.\<close>

definition unlockTimerExpired :: "lock \<Rightarrow> bool" where
  "unlockTimerExpired s = (unlockTimerActive s \<and> clock s - unlockStartTime s \<ge> UNLOCK_TIME)"

text \<open>The path condition under which a call of \<^verbatim>\<open>checkManualUnlock\<close> reaches the branch
  \<^verbatim>\<open>if (buttonState == LOW)\<close>: the door is locked, the pin reads low, the debounced state
  is not low yet, and more than the debounce delay has passed since the pin last changed
  (a change seen in this very call restarts the delay).\<close>

definition buttonPressEvent :: "level \<Rightarrow> lock \<Rightarrow> bool" where
  "buttonPressEvent reading s =
     (\<not> isDoorUnlocked s \<and> reading = LOW \<and> buttonState s \<noteq> LOW \<and>
      clock s - (if reading \<noteq> lastButtonState s then clock s else lastDebounceTime s)
        > DEBOUNCE_DELAY)"

text \<open>What the two branches of a button press, the red flash with the LED update that
  follows it, and \<^verbatim>\<open>lockDoor\<close> write to the outside.\<close>

definition manualUnlockEvents :: "event list" where
  "manualUnlockEvents =
     [Println ''Button pressed'', Println ''Manual unlock triggered'',
      PinWrite SOLENOID_PIN HIGH, PinWrite LED_GREEN_PIN HIGH, PinWrite LED_RED_PIN LOW,
      Delay UNLOCK_TIME,
      PinWrite SOLENOID_PIN LOW, PinWrite LED_GREEN_PIN LOW, PinWrite LED_RED_PIN HIGH,
      Println ''Door re-locked after manual unlock'']"

definition flashRedEvents :: "event list" where
  "flashRedEvents =
     [PinWrite LED_RED_PIN HIGH, Delay 100, PinWrite LED_RED_PIN LOW, Delay 100,
      PinWrite LED_RED_PIN HIGH, Delay 100, PinWrite LED_RED_PIN LOW, Delay 100,
      PinWrite LED_RED_PIN HIGH, Delay 100, PinWrite LED_RED_PIN LOW, Delay 100,
      PinWrite LED_GREEN_PIN LOW, PinWrite LED_RED_PIN HIGH]"

definition buttonRejectedEvents :: "event list" where
  "buttonRejectedEvents =
     Println ''Button pressed'' # Println ''Button press ignored - authentication required'' #
     flashRedEvents"

definition lockDoorEvents :: "event list" where
  "lockDoorEvents =
     [Println ''Locking door...'', PinWrite SOLENOID_PIN LOW,
      PinWrite LED_GREEN_PIN LOW, PinWrite LED_RED_PIN HIGH, Println ''Door locked'']"

section \<open>The first timed sketch, \<^verbatim>\<open>lock_v1.ino\<close>\<close>

record v1_lock =
  v1_solenoidPin :: level
  v1_unlockStartTime :: ulong
  v1_unlockTimerActive :: bool
  v1_unlockedByAuth :: bool
  v1_manualUnlocked :: bool
  v1_clock :: ulong
  v1_trace :: "event list"

text \<open>\<^verbatim>\<open>const int unlockTime = 3000\<close>; both of its uses convert it to \<^verbatim>\<open>unsigned long\<close>.\<close>

definition v1_unlockTime :: ulong where
  "v1_unlockTime = 3000"

definition v1_emit :: "event \<Rightarrow> v1_lock \<Rightarrow> v1_lock" where
  "v1_emit e s = s\<lparr>v1_trace := v1_trace s @ [e]\<rparr>"

definition v1_delay :: "ulong \<Rightarrow> v1_lock \<Rightarrow> v1_lock" where
  "v1_delay ms s = v1_emit (Delay ms) (s\<lparr>v1_clock := v1_clock s + ms\<rparr>)"

definition v1_digitalWrite :: "level \<Rightarrow> v1_lock \<Rightarrow> v1_lock" where
  "v1_digitalWrite v s = v1_emit (PinWrite SOLENOID_PIN v) (s\<lparr>v1_solenoidPin := v\<rparr>)"

definition v1_unlockDoor :: "v1_lock \<Rightarrow> v1_lock" where
  "v1_unlockDoor s =
     (let s = v1_emit (Println ''Unlocking door...'') s;
          s = v1_digitalWrite HIGH s;
          s = s\<lparr>v1_unlockStartTime := v1_clock s\<rparr>;
          s = s\<lparr>v1_unlockTimerActive := True\<rparr>;
          s = v1_emit (Println ''Door unlocked - will auto-lock after timeout'') s;
          s = s\<lparr>v1_unlockedByAuth := True\<rparr>
      in s\<lparr>v1_manualUnlocked := False\<rparr>)"

definition v1_lockDoor :: "v1_lock \<Rightarrow> v1_lock" where
  "v1_lockDoor s =
     (let s = v1_emit (Println ''Locking door...'') s;
          s = v1_digitalWrite LOW s;
          s = s\<lparr>v1_unlockTimerActive := False\<rparr>
      in v1_emit (Println ''Door locked'') s)"

text \<open>The body of \<^verbatim>\<open>loop()\<close> is four blocks in a row; each is a function here, named
  after what it does, and \<open>v1_loop\<close> runs them in the order of the sketch.\<close>

text \<open>First block: the button is read, and a low level is reported and waited out.\<close>

definition v1_reportButton :: "level \<Rightarrow> v1_lock \<Rightarrow> v1_lock" where
  "v1_reportButton pinLevel s =
     (if pinLevel = LOW then v1_delay 500 (v1_emit (Println ''Button Pressed'') s) else s)"

text \<open>Second block: the unlock timer.\<close>

definition v1_unlockTimerExpired :: "v1_lock \<Rightarrow> bool" where
  "v1_unlockTimerExpired s =
     (v1_unlockTimerActive s \<and> v1_clock s - v1_unlockStartTime s \<ge> v1_unlockTime)"

definition v1_handleUnlockTimer :: "v1_lock \<Rightarrow> v1_lock" where
  "v1_handleUnlockTimer s =
     (if v1_unlockTimerActive s
      then (if v1_clock s - v1_unlockStartTime s \<ge> v1_unlockTime
            then (v1_lockDoor s)\<lparr>v1_unlockTimerActive := False\<rparr>
            else s)
      else s)"

text \<open>Third block: one character of serial input, when one is waiting.\<close>

definition v1_checkSerial :: "char option \<Rightarrow> v1_lock \<Rightarrow> v1_lock" where
  "v1_checkSerial available s =
     (case available of
        None \<Rightarrow> s
      | Some command \<Rightarrow>
          if command = CHR ''u'' \<or> command = CHR ''U'' then v1_unlockDoor s
          else if command = CHR ''l'' \<or> command = CHR ''L'' then v1_lockDoor s
          else if command = CHR ''s'' \<or> command = CHR ''S''
          then v1_emit (Println (''Door is currently: '' @
                 (if v1_solenoidPin s = HIGH then ''UNLOCKED'' else ''LOCKED''))) s
          else s)"

text \<open>Fourth block: the button is read again; the manual re-unlock.\<close>

definition v1_manualUnlock :: "level \<Rightarrow> v1_lock \<Rightarrow> v1_lock" where
  "v1_manualUnlock pinLevel s =
     (if pinLevel = LOW
      then (if v1_unlockedByAuth s \<and> \<not> v1_manualUnlocked s
            then (let s = v1_emit (Println ''Manual re-unlock triggered.'') s;
                      s = v1_digitalWrite HIGH s;
                      s = v1_delay v1_unlockTime s;
                      s = v1_digitalWrite LOW s;
                      s = v1_emit (Println ''Door re-locked after manual unlock.'') s;
                      s = s\<lparr>v1_manualUnlocked := True\<rparr>
                  in v1_delay 300 s)
            else s)
      else s)"

text \<open>What the manual re-unlock writes to the outside.\<close>

definition v1_manualUnlockEvents :: "event list" where
  "v1_manualUnlockEvents =
     [Println ''Manual re-unlock triggered.'', PinWrite SOLENOID_PIN HIGH, Delay 3000,
      PinWrite SOLENOID_PIN LOW, Println ''Door re-locked after manual unlock.'', Delay 300]"

record v1_input =
  v1_firstRead :: level
  v1_serialIn :: "char option"
  v1_secondRead :: level

definition v1_loop :: "v1_input \<Rightarrow> v1_lock \<Rightarrow> v1_lock" where
  "v1_loop inp s =
     (let s = v1_reportButton (v1_firstRead inp) s;
          s = v1_handleUnlockTimer s;
          s = v1_checkSerial (v1_serialIn inp) s
      in v1_manualUnlock (v1_secondRead inp) s)"

definition v1_power_on :: "ulong \<Rightarrow> v1_lock" where
  "v1_power_on t0 =
     \<lparr>v1_solenoidPin = LOW, v1_unlockStartTime = 0, v1_unlockTimerActive = False,
      v1_unlockedByAuth = False, v1_manualUnlocked = False, v1_clock = t0, v1_trace = []\<rparr>"

definition v1_setup :: "v1_lock \<Rightarrow> v1_lock" where
  "v1_setup s =
     v1_digitalWrite LOW
       (v1_emit (Println ''Solenoid Lock Control System with Watchdog'') s)"

section \<open>Concrete runs\<close>

text \<open>The first card of the allow-list and a card that is not on it, as the reader
  reports them (four-byte UIDs in the ten-byte buffer).\<close>

definition card1 :: mfrc522 where
  "card1 = \<lparr>newCardPresent = True, readCardSerial = True,
     uid = \<lparr>uid_size = 4, uidByte = [0xB3, 0x4A, 0x9E, 0x29, 0, 0, 0, 0, 0, 0], sak = 8\<rparr>\<rparr>"

definition strangerCard :: mfrc522 where
  "strangerCard = \<lparr>newCardPresent = True, readCardSerial = True,
     uid = \<lparr>uid_size = 4, uidByte = [0xB3, 0x4A, 0x9E, 0x2A, 0, 0, 0, 0, 0, 0], sak = 8\<rparr>\<rparr>"

text \<open>The sketch after start-up: locked, nothing authenticated.\<close>

definition started :: lock where
  "started = setup_sketch (power_on 0)"

text \<open>Card 1 is scanned and accepted; ten seconds later the unlock timer re-locks.\<close>

definition accepted :: lock where
  "accepted = checkRFID card1 started"

definition timedOut :: lock where
  "timedOut = elapse 10000 accepted"

definition relocked :: lock where
  "relocked = handleUnlockTimer timedOut"

text \<open>The button goes down and stays down for 60 ms: the second call sees the debounced
  press and runs the blocking unlock.\<close>

definition firstPress :: lock where
  "firstPress = checkManualUnlock LOW (elapse 60 (checkManualUnlock LOW relocked))"

text \<open>The button is released, then goes down again for 60 ms; \<open>secondPressDue\<close> is the state
  in which the next call sees the second debounced press.\<close>

definition released :: lock where
  "released = checkManualUnlock HIGH (elapse 60 (checkManualUnlock HIGH firstPress))"

definition secondPressDue :: lock where
  "secondPressDue = elapse 60 (checkManualUnlock LOW released)"

text \<open>The door is unlocked by card 1 and two seconds pass.\<close>

definition openTwoSeconds :: lock where
  "openTwoSeconds = elapse 2000 accepted"

text \<open>\<^verbatim>\<open>lock_v1\<close>: the serial command \<open>u\<close> unlocks; one second later the door is still
  unlocked and the timer runs.\<close>

definition v1_started :: v1_lock where
  "v1_started = v1_setup (v1_power_on 0)"

definition v1_open :: v1_lock where
  "v1_open = (v1_checkSerial (Some (CHR ''u'')) v1_started)\<lparr>v1_clock := 1000\<rparr>"

text \<open>Two hours after the unlock timer re-locked the door, nothing having happened in
  between.\<close>

definition sessionOver :: lock where
  "sessionOver = elapse 7200000 relocked"

text \<open>After the first button press and the release of the button, two hours pass and the
  session timer runs out; then the button goes down for 60 ms once more.\<close>

definition afterSession :: lock where
  "afterSession = handleSessionTimer (elapse 7200000 released)"

definition thirdPressDue :: lock where
  "thirdPressDue = elapse 60 (checkManualUnlock LOW afterSession)"

text \<open>\<^verbatim>\<open>lock_v1\<close>: one pass of the loop with the button held down and no serial input.\<close>

definition heldDown :: v1_input where
  "heldDown = \<lparr>v1_firstRead = LOW, v1_serialIn = None, v1_secondRead = LOW\<rparr>"

section \<open>Properties\<close>

subsection \<open>Unfolding the primitives\<close>

lemmas io_defs = emit_def println_def delay_def digitalWrite_def digitalRead_def
  isDoorUnlocked_def updateLEDs_def

lemma flashRed_3:
  "flashRed 3 s = s\<lparr>ledRed := LOW, clock := clock s + 600,
     trace := trace s @ take 12 flashRedEvents\<rparr>"
  by (simp add: eval_nat_numeral io_defs flashRedEvents_def)

lemma lockDoor_eq:
  "lockDoor s = s\<lparr>solenoidPin := LOW, ledGreen := LOW, ledRed := HIGH,
     unlockTimerActive := False, lastActivityTime := clock s,
     trace := trace s @ lockDoorEvents\<rparr>"
  by (simp add: lockDoor_def io_defs lockDoorEvents_def)

subsection \<open>Printing changes nothing but the trace\<close>

lemma vars_emit: "vars (emit e s) = vars s"
  by (simp add: vars_def emit_def)

lemma vars_logHex: "vars (logHex bs s) = vars s"
  by (induction bs arbitrary: s) (simp_all add: vars_emit)

lemma vars_logDec: "vars (logDec bs s) = vars s"
  by (induction bs arbitrary: s) (simp_all add: vars_emit)

lemma vars_logRFIDDetails: "vars (logRFIDDetails u s) = vars s"
  by (simp add: logRFIDDetails_def Let_def println_def vars_emit vars_logHex vars_logDec)

subsection \<open>The two matching loops\<close>

lemma matchBytes_iff:
  "matchBytes i scanned entry \<longleftrightarrow> (\<forall>j. i \<le> j \<and> j < 4 \<longrightarrow> scanned ! j = entry ! j)"
proof (induction i scanned entry rule: matchBytes.induct)
  case (1 i scanned entry)
  show ?case
  proof (cases "i < 4")
    case False
    then have "matchBytes i scanned entry"
      by (subst matchBytes.simps) simp
    with False show ?thesis by auto
  next
    case True
    show ?thesis
    proof (cases "scanned ! i = entry ! i")
      case False
      with True have "\<not> matchBytes i scanned entry"
        by (subst matchBytes.simps) simp
      with True False show ?thesis by auto
    next
      case same: True
      with True have "matchBytes i scanned entry \<longleftrightarrow> matchBytes (i + 1) scanned entry"
        by (subst matchBytes.simps) simp
      also have "\<dots> \<longleftrightarrow> (\<forall>j. i + 1 \<le> j \<and> j < 4 \<longrightarrow> scanned ! j = entry ! j)"
        using "1.IH" True same by simp
      also have "\<dots> \<longleftrightarrow> (\<forall>j. i \<le> j \<and> j < 4 \<longrightarrow> scanned ! j = entry ! j)"
        using same by (metis Suc_eq_plus1 Suc_leI le_neq_implies_less Suc_leD)
      finally show ?thesis .
    qed
  qed
qed

lemma matchBytes_take:
  assumes "length entry = 4" and "4 \<le> length scanned"
  shows "matchBytes 0 scanned entry \<longleftrightarrow> take 4 scanned = entry"
proof -
  have "matchBytes 0 scanned entry \<longleftrightarrow> (\<forall>j<4. take 4 scanned ! j = entry ! j)"
    by (simp add: matchBytes_iff)
  also have "\<dots> \<longleftrightarrow> take 4 scanned = entry"
    using assms by (auto simp: list_eq_iff_nth_eq)
  finally show ?thesis .
qed

lemma searchCards_iff:
  "searchCards cardIdx scanned \<longleftrightarrow>
     (\<exists>c. cardIdx \<le> c \<and> c < NUM_AUTHORIZED_CARDS \<and> matchBytes 0 scanned (authorizedUIDs ! c))"
proof (induction cardIdx scanned rule: searchCards.induct)
  case (1 cardIdx scanned)
  show ?case
  proof (cases "cardIdx < NUM_AUTHORIZED_CARDS")
    case False
    then have "\<not> searchCards cardIdx scanned"
      by (subst searchCards.simps) simp
    with False show ?thesis by auto
  next
    case True
    show ?thesis
    proof (cases "matchBytes 0 scanned (authorizedUIDs ! cardIdx)")
      case hit: True
      with True have "searchCards cardIdx scanned"
        by (subst searchCards.simps) simp
      with True hit show ?thesis by auto
    next
      case miss: False
      with True have "searchCards cardIdx scanned \<longleftrightarrow> searchCards (cardIdx + 1) scanned"
        by (subst searchCards.simps) simp
      also have "\<dots> \<longleftrightarrow> (\<exists>c. cardIdx + 1 \<le> c \<and> c < NUM_AUTHORIZED_CARDS \<and>
                     matchBytes 0 scanned (authorizedUIDs ! c))"
        using "1.IH" True miss by simp
      also have "\<dots> \<longleftrightarrow> (\<exists>c. cardIdx \<le> c \<and> c < NUM_AUTHORIZED_CARDS \<and>
                     matchBytes 0 scanned (authorizedUIDs ! c))"
        using miss by (metis Suc_eq_plus1 Suc_leI le_neq_implies_less Suc_leD)
      finally show ?thesis .
    qed
  qed
qed

lemma searchCards_allow_list:
  assumes "4 \<le> length scanned"
  shows "searchCards 0 scanned \<longleftrightarrow> take 4 scanned \<in> set authorizedUIDs"
proof -
  have "\<forall>e \<in> set authorizedUIDs. length e = 4"
    by (simp add: authorizedUIDs_def)
  then have len: "\<And>c. c < length authorizedUIDs \<Longrightarrow> length (authorizedUIDs ! c) = 4"
    by simp
  have "searchCards 0 scanned \<longleftrightarrow>
        (\<exists>c < length authorizedUIDs. matchBytes 0 scanned (authorizedUIDs ! c))"
    by (simp add: searchCards_iff NUM_AUTHORIZED_CARDS_def)
  also have "\<dots> \<longleftrightarrow> (\<exists>c < length authorizedUIDs. take 4 scanned = authorizedUIDs ! c)"
    using assms len by (auto simp: matchBytes_take)
  also have "\<dots> \<longleftrightarrow> take 4 scanned \<in> set authorizedUIDs"
    by (auto simp: in_set_conv_nth)
  finally show ?thesis .
qed

subsection \<open>Scanning a card\<close>

lemma unlockDoor_eq:
  "unlockDoor s = s\<lparr>solenoidPin := HIGH, ledGreen := HIGH, ledRed := LOW,
     unlockStartTime := clock s, unlockTimerActive := True, lastActivityTime := clock s,
     unlockedByAuth := True, manualUnlocked := False, sessionModeActive := True,
     sessionStartTime := (if sessionModeActive s then sessionStartTime s else clock s),
     trace := trace s @
       [Println ''Unlocking door...'', PinWrite SOLENOID_PIN HIGH,
        PinWrite LED_GREEN_PIN HIGH, PinWrite LED_RED_PIN LOW,
        Println ''Door unlocked - will auto-lock after timeout''] @
       (if sessionModeActive s then [] else [Println ''Session mode activated for 2 hours''])\<rparr>"
  by (simp add: unlockDoor_def toggleSessionMode_def io_defs Let_def)

lemma reject_transfer:
  "vars r = vars s \<Longrightarrow>
   r\<lparr>ledGreen := g, ledRed := d, clock := clock r + n, lastActivityTime := clock r + n,
     trace := es\<rparr> =
   s\<lparr>ledGreen := g, ledRed := d, clock := clock s + n, lastActivityTime := clock s + n,
     trace := es\<rparr>"
  by (cases r, cases s) (simp add: vars_def)

lemma checkRFID_reject:
  assumes "\<not> isDoorUnlocked s" "newCardPresent rfid" "readCardSerial rfid"
    "\<not> searchCards 0 (uidByte (uid rfid))"
  shows "checkRFID rfid s = s\<lparr>ledGreen := LOW, ledRed := HIGH, clock := clock s + 600,
      lastActivityTime := clock s + 600,
      trace := trace (logRFIDDetails (uid rfid) s) @
        Println ''Unauthorized card - access denied'' # flashRedEvents\<rparr>"
proof -
  define r where "r = logRFIDDetails (uid rfid) s"
  have vr: "vars r = vars s" unfolding r_def by (rule vars_logRFIDDetails)
  have "checkRFID rfid s =
     (updateLEDs False (flashRed 3 (println ''Unauthorized card - access denied'' r)))
       \<lparr>lastActivityTime := clock (updateLEDs False (flashRed 3 (println ''Unauthorized card - access denied'' r)))\<rparr>"
    using assms by (simp add: checkRFID_def Let_def r_def)
  also have "\<dots> = r\<lparr>ledGreen := LOW, ledRed := HIGH, clock := clock r + 600,
      lastActivityTime := clock r + 600,
      trace := trace r @ Println ''Unauthorized card - access denied'' # flashRedEvents\<rparr>"
    by (simp add: flashRed_3 io_defs flashRedEvents_def)
  also have "\<dots> = s\<lparr>ledGreen := LOW, ledRed := HIGH, clock := clock s + 600,
      lastActivityTime := clock s + 600,
      trace := trace r @ Println ''Unauthorized card - access denied'' # flashRedEvents\<rparr>"
    by (rule reject_transfer [OF vr])
  finally show ?thesis unfolding r_def .
qed

lemma checkRFID_accept:
  assumes "\<not> isDoorUnlocked s" "newCardPresent rfid" "readCardSerial rfid"
    "searchCards 0 (uidByte (uid rfid))"
  shows "checkRFID rfid s =
     unlockDoor (println ''Authorized card detected'' (logRFIDDetails (uid rfid) s))"
  using assms by (simp add: checkRFID_def Let_def unlockDoor_eq)

lemma unlockDoor_unlocks: "isDoorUnlocked (unlockDoor s)"
  by (simp add: unlockDoor_eq isDoorUnlocked_def digitalRead_def)

text \<open>
  Claim C1. A scanned card takes the door from locked to unlocked only when the first four
  bytes of its UID equal an entry of \<open>authorizedUIDs\<close>, and then \<^verbatim>\<open>checkRFID\<close> has run
  \<^verbatim>\<open>unlockDoor\<close>; a card on the list that is read while the door is locked does unlock it.
  A card that matches no entry leaves the solenoid, the unlock timer and the three
  authentication flags as they were: when it is read with the door locked, all that
  changes is the LEDs (the red flash), the counter (the 600 ms the flash takes), the
  activity stamp and what was printed.
\<close>

theorem checkRFID_unlocks_only_on_allow_list:
  assumes "length (uidByte (uid rfid)) = 10"
  shows "(\<not> isDoorUnlocked s \<and> isDoorUnlocked (checkRFID rfid s) \<longrightarrow>
            newCardPresent rfid \<and> readCardSerial rfid \<and>
            take 4 (uidByte (uid rfid)) \<in> set authorizedUIDs \<and>
            checkRFID rfid s =
              unlockDoor (println ''Authorized card detected'' (logRFIDDetails (uid rfid) s)))
       \<and> (\<not> isDoorUnlocked s \<and> newCardPresent rfid \<and> readCardSerial rfid \<and>
            take 4 (uidByte (uid rfid)) \<in> set authorizedUIDs \<longrightarrow>
            isDoorUnlocked (checkRFID rfid s))
       \<and> (take 4 (uidByte (uid rfid)) \<notin> set authorizedUIDs \<longrightarrow>
            solenoidPin (checkRFID rfid s) = solenoidPin s \<and>
            unlockTimerActive (checkRFID rfid s) = unlockTimerActive s \<and>
            unlockStartTime (checkRFID rfid s) = unlockStartTime s \<and>
            unlockedByAuth (checkRFID rfid s) = unlockedByAuth s \<and>
            manualUnlocked (checkRFID rfid s) = manualUnlocked s \<and>
            sessionModeActive (checkRFID rfid s) = sessionModeActive s)
       \<and> (\<not> isDoorUnlocked s \<and> newCardPresent rfid \<and> readCardSerial rfid \<and>
            take 4 (uidByte (uid rfid)) \<notin> set authorizedUIDs \<longrightarrow>
            checkRFID rfid s =
              s\<lparr>ledGreen := LOW, ledRed := HIGH, clock := clock s + 600,
                lastActivityTime := clock s + 600,
                trace := trace (logRFIDDetails (uid rfid) s) @
                  Println ''Unauthorized card - access denied'' # flashRedEvents\<rparr>)"
proof -
  have allow: "searchCards 0 (uidByte (uid rfid)) \<longleftrightarrow>
      take 4 (uidByte (uid rfid)) \<in> set authorizedUIDs"
    using assms by (simp add: searchCards_allow_list)
  have idle: "checkRFID rfid s = s"
    if "isDoorUnlocked s \<or> \<not> newCardPresent rfid \<or> \<not> readCardSerial rfid"
    using that by (auto simp: checkRFID_def)
  have rej: "checkRFID rfid s =
      s\<lparr>ledGreen := LOW, ledRed := HIGH, clock := clock s + 600,
        lastActivityTime := clock s + 600,
        trace := trace (logRFIDDetails (uid rfid) s) @
          Println ''Unauthorized card - access denied'' # flashRedEvents\<rparr>"
    if "\<not> isDoorUnlocked s" "newCardPresent rfid" "readCardSerial rfid"
       "take 4 (uidByte (uid rfid)) \<notin> set authorizedUIDs"
    using that allow by (simp add: checkRFID_reject)
  have acc: "checkRFID rfid s =
      unlockDoor (println ''Authorized card detected'' (logRFIDDetails (uid rfid) s))"
    if "\<not> isDoorUnlocked s" "newCardPresent rfid" "readCardSerial rfid"
       "take 4 (uidByte (uid rfid)) \<in> set authorizedUIDs"
    using that allow by (simp add: checkRFID_accept)
  have c1: "\<not> isDoorUnlocked s \<and> isDoorUnlocked (checkRFID rfid s) \<longrightarrow>
            newCardPresent rfid \<and> readCardSerial rfid \<and>
            take 4 (uidByte (uid rfid)) \<in> set authorizedUIDs \<and>
            checkRFID rfid s =
              unlockDoor (println ''Authorized card detected'' (logRFIDDetails (uid rfid) s))"
  proof (intro impI, elim conjE)
    assume locked: "\<not> isDoorUnlocked s" and opened: "isDoorUnlocked (checkRFID rfid s)"
    have present: "newCardPresent rfid \<and> readCardSerial rfid"
      using idle locked opened by metis
    have listed: "take 4 (uidByte (uid rfid)) \<in> set authorizedUIDs"
    proof (rule ccontr)
      assume "take 4 (uidByte (uid rfid)) \<notin> set authorizedUIDs"
      with locked present have "solenoidPin (checkRFID rfid s) = solenoidPin s"
        by (simp add: rej)
      with locked opened show False
        by (simp add: isDoorUnlocked_def digitalRead_def)
    qed
    with locked present acc show "newCardPresent rfid \<and> readCardSerial rfid \<and>
            take 4 (uidByte (uid rfid)) \<in> set authorizedUIDs \<and>
            checkRFID rfid s =
              unlockDoor (println ''Authorized card detected'' (logRFIDDetails (uid rfid) s))"
      by simp
  qed
  have c2: "\<not> isDoorUnlocked s \<and> newCardPresent rfid \<and> readCardSerial rfid \<and>
            take 4 (uidByte (uid rfid)) \<in> set authorizedUIDs \<longrightarrow>
            isDoorUnlocked (checkRFID rfid s)"
    using acc by (simp add: unlockDoor_unlocks)
  have c3: "take 4 (uidByte (uid rfid)) \<notin> set authorizedUIDs \<longrightarrow>
            solenoidPin (checkRFID rfid s) = solenoidPin s \<and>
            unlockTimerActive (checkRFID rfid s) = unlockTimerActive s \<and>
            unlockStartTime (checkRFID rfid s) = unlockStartTime s \<and>
            unlockedByAuth (checkRFID rfid s) = unlockedByAuth s \<and>
            manualUnlocked (checkRFID rfid s) = manualUnlocked s \<and>
            sessionModeActive (checkRFID rfid s) = sessionModeActive s"
  proof (cases "isDoorUnlocked s \<or> \<not> newCardPresent rfid \<or> \<not> readCardSerial rfid")
    case True
    then show ?thesis by (simp add: idle)
  next
    case False
    then show ?thesis by (auto simp: rej)
  qed
  have c4: "\<not> isDoorUnlocked s \<and> newCardPresent rfid \<and> readCardSerial rfid \<and>
            take 4 (uidByte (uid rfid)) \<notin> set authorizedUIDs \<longrightarrow>
            checkRFID rfid s =
              s\<lparr>ledGreen := LOW, ledRed := HIGH, clock := clock s + 600,
                lastActivityTime := clock s + 600,
                trace := trace (logRFIDDetails (uid rfid) s) @
                  Println ''Unauthorized card - access denied'' # flashRedEvents\<rparr>"
    using rej by blast
  from c1 c2 c3 c4 show ?thesis by blast
qed

lemma started_locked: "\<not> isDoorUnlocked started"
  by (simp add: started_def setup_sketch_def power_on_def io_defs eval_nat_numeral)

theorem checkRFID_unlocks_only_on_allow_list_witness:
  "length (uidByte (uid card1)) = 10 \<and> length (uidByte (uid strangerCard)) = 10 \<and>
   \<not> isDoorUnlocked started \<and>
   take 4 (uidByte (uid card1)) \<in> set authorizedUIDs \<and>
   isDoorUnlocked (checkRFID card1 started) \<and>
   checkRFID card1 started =
     unlockDoor (println ''Authorized card detected'' (logRFIDDetails (uid card1) started)) \<and>
   take 4 (uidByte (uid strangerCard)) \<notin> set authorizedUIDs \<and>
   solenoidPin (checkRFID strangerCard started) = LOW \<and>
   \<not> unlockedByAuth (checkRFID strangerCard started) \<and>
   clock (checkRFID strangerCard started) = clock started + 600"
proof -
  have l1: "length (uidByte (uid card1)) = 10" by (simp add: card1_def)
  have l2: "length (uidByte (uid strangerCard)) = 10" by (simp add: strangerCard_def)
  have p1: "newCardPresent card1 \<and> readCardSerial card1" by (simp add: card1_def)
  have p2: "newCardPresent strangerCard \<and> readCardSerial strangerCard"
    by (simp add: strangerCard_def)
  have on: "take 4 (uidByte (uid card1)) \<in> set authorizedUIDs"
    by (simp add: card1_def authorizedUIDs_def)
  have off: "take 4 (uidByte (uid strangerCard)) \<notin> set authorizedUIDs"
    by (simp add: strangerCard_def authorizedUIDs_def)
  have s0: "solenoidPin started = LOW \<and> \<not> unlockedByAuth started"
    by (simp add: started_def setup_sketch_def power_on_def io_defs eval_nat_numeral)
  note listed = checkRFID_unlocks_only_on_allow_list [OF l1, of started]
  note stranger = checkRFID_unlocks_only_on_allow_list [OF l2, of started]
  have a: "isDoorUnlocked (checkRFID card1 started)"
    using listed started_locked p1 on by blast
  have a': "checkRFID card1 started =
     unlockDoor (println ''Authorized card detected'' (logRFIDDetails (uid card1) started))"
    using listed started_locked a by blast
  have b: "solenoidPin (checkRFID strangerCard started) = LOW"
    using stranger off s0 by simp
  have b': "\<not> unlockedByAuth (checkRFID strangerCard started)"
    using stranger off s0 by simp
  have "checkRFID strangerCard started =
      started\<lparr>ledGreen := LOW, ledRed := HIGH, clock := clock started + 600,
        lastActivityTime := clock started + 600,
        trace := trace (logRFIDDetails (uid strangerCard) started) @
          Println ''Unauthorized card - access denied'' # flashRedEvents\<rparr>"
    using stranger started_locked p2 off by blast
  then have c: "clock (checkRFID strangerCard started) = clock started + 600"
    by simp
  show ?thesis by (intro conjI l1 l2 started_locked on a a' off b b' c)
qed

subsection \<open>\<^verbatim>\<open>lock_v1\<close>: the primitives unfolded\<close>

lemmas v1_defs = v1_emit_def v1_delay_def v1_digitalWrite_def v1_unlockTime_def

lemma v1_lockDoor_eq:
  "v1_lockDoor w = w\<lparr>v1_solenoidPin := LOW, v1_unlockTimerActive := False,
     v1_trace := v1_trace w @
       [Println ''Locking door...'', PinWrite SOLENOID_PIN LOW, Println ''Door locked'']\<rparr>"
  by (simp add: v1_lockDoor_def v1_defs)

lemma v1_unlockDoor_eq:
  "v1_unlockDoor w = w\<lparr>v1_solenoidPin := HIGH, v1_unlockStartTime := v1_clock w,
     v1_unlockTimerActive := True, v1_unlockedByAuth := True, v1_manualUnlocked := False,
     v1_trace := v1_trace w @
       [Println ''Unlocking door...'', PinWrite SOLENOID_PIN HIGH,
        Println ''Door unlocked - will auto-lock after timeout'']\<rparr>"
  by (simp add: v1_unlockDoor_def v1_defs)

lemma v1_manualUnlock_eq:
  "v1_manualUnlock LOW w =
     (if v1_unlockedByAuth w \<and> \<not> v1_manualUnlocked w
      then w\<lparr>v1_solenoidPin := LOW, v1_manualUnlocked := True, v1_clock := v1_clock w + 3300,
             v1_trace := v1_trace w @ v1_manualUnlockEvents\<rparr>
      else w)"
  by (simp add: v1_manualUnlock_def v1_defs v1_manualUnlockEvents_def Let_def)

subsection \<open>The manual button\<close>

text \<open>A debounced press is seen only in a call in which the pin did not change: a change
  restarts the debounce delay.\<close>

lemma buttonPressEvent_stable:
  assumes "buttonPressEvent reading s"
  shows "reading = LOW" and "lastButtonState s = LOW" and "buttonState s = HIGH"
    and "solenoidPin s = LOW" and "clock s - lastDebounceTime s > DEBOUNCE_DELAY"
proof -
  from assms show "reading = LOW"
    by (simp add: buttonPressEvent_def)
  from assms show "lastButtonState s = LOW"
    by (cases "lastButtonState s"; cases reading) (simp_all add: buttonPressEvent_def)
  from assms show "buttonState s = HIGH"
    by (cases "buttonState s") (simp_all add: buttonPressEvent_def)
  from assms show "solenoidPin s = LOW"
    by (cases "solenoidPin s") (simp_all add: buttonPressEvent_def isDoorUnlocked_def digitalRead_def)
  from assms \<open>lastButtonState s = LOW\<close> show "clock s - lastDebounceTime s > DEBOUNCE_DELAY"
    by (auto simp: buttonPressEvent_def)
qed

lemma press_granted:
  assumes "buttonPressEvent reading s"
    and "(unlockedByAuth s \<and> \<not> manualUnlocked s) \<or> sessionModeActive s"
  shows "checkManualUnlock reading s =
     s\<lparr>solenoidPin := LOW, ledGreen := LOW, ledRed := HIGH, lastActivityTime := clock s,
       manualUnlocked := True, buttonState := LOW, clock := clock s + UNLOCK_TIME,
       trace := trace s @ manualUnlockEvents\<rparr>"
  using assms(2) buttonPressEvent_stable [OF assms(1)]
  by (cases s)
     (auto simp: checkManualUnlock_def io_defs Let_def manualUnlockEvents_def)

lemma press_rejected:
  assumes "buttonPressEvent reading s"
    and "\<not> ((unlockedByAuth s \<and> \<not> manualUnlocked s) \<or> sessionModeActive s)"
  shows "checkManualUnlock reading s =
     s\<lparr>ledGreen := LOW, ledRed := HIGH, lastActivityTime := clock s, buttonState := LOW,
       clock := clock s + 600, trace := trace s @ buttonRejectedEvents\<rparr>"
  using assms(2) buttonPressEvent_stable [OF assms(1)]
  by (cases s)
     (auto simp: checkManualUnlock_def io_defs Let_def flashRed_3 buttonRejectedEvents_def
        flashRedEvents_def)

text \<open>
  Claim C2, as the code has it. A credential acceptance (\<^verbatim>\<open>unlockDoor\<close>) sets
  \<open>unlockedByAuth\<close>, clears \<open>manualUnlocked\<close> and leaves session mode switched on. A
  debounced press of the button while the door is locked runs the blocking unlock (solenoid
  high, \<open>UNLOCK_TIME\<close> of delay, solenoid low) and sets \<open>manualUnlocked\<close> whenever
  \<open>unlockedByAuth\<close> holds with \<open>manualUnlocked\<close> clear, or session mode is active: so the
  first press after an acceptance runs it, and so does every later press for as long as
  the session lasts. A press is turned down (red flash, solenoid and flags untouched) exactly
  when neither holds, that is once the one press is used up and session mode is off.
\<close>

theorem manual_override_one_shot_or_session:
  "unlockedByAuth (unlockDoor s0) \<and> \<not> manualUnlocked (unlockDoor s0) \<and>
   sessionModeActive (unlockDoor s0)
 \<and> (buttonPressEvent reading s \<and>
      ((unlockedByAuth s \<and> \<not> manualUnlocked s) \<or> sessionModeActive s) \<longrightarrow>
      checkManualUnlock reading s =
        s\<lparr>solenoidPin := LOW, ledGreen := LOW, ledRed := HIGH, lastActivityTime := clock s,
          manualUnlocked := True, buttonState := LOW, clock := clock s + UNLOCK_TIME,
          trace := trace s @ manualUnlockEvents\<rparr>)
 \<and> (buttonPressEvent reading s \<and>
      \<not> ((unlockedByAuth s \<and> \<not> manualUnlocked s) \<or> sessionModeActive s) \<longrightarrow>
      checkManualUnlock reading s =
        s\<lparr>ledGreen := LOW, ledRed := HIGH, lastActivityTime := clock s, buttonState := LOW,
          clock := clock s + 600, trace := trace s @ buttonRejectedEvents\<rparr>)"
proof -
  have a: "unlockedByAuth (unlockDoor s0) \<and> \<not> manualUnlocked (unlockDoor s0) \<and>
      sessionModeActive (unlockDoor s0)"
    by (simp add: unlockDoor_eq)
  have b: "buttonPressEvent reading s \<and>
      ((unlockedByAuth s \<and> \<not> manualUnlocked s) \<or> sessionModeActive s) \<longrightarrow>
      checkManualUnlock reading s =
        s\<lparr>solenoidPin := LOW, ledGreen := LOW, ledRed := HIGH, lastActivityTime := clock s,
          manualUnlocked := True, buttonState := LOW, clock := clock s + UNLOCK_TIME,
          trace := trace s @ manualUnlockEvents\<rparr>"
    using press_granted by blast
  have c: "buttonPressEvent reading s \<and>
      \<not> ((unlockedByAuth s \<and> \<not> manualUnlocked s) \<or> sessionModeActive s) \<longrightarrow>
      checkManualUnlock reading s =
        s\<lparr>ledGreen := LOW, ledRed := HIGH, lastActivityTime := clock s, buttonState := LOW,
          clock := clock s + 600, trace := trace s @ buttonRejectedEvents\<rparr>"
    using press_rejected by blast
  from a b c show ?thesis by blast
qed

theorem manual_override_one_shot_or_session_witness:
  "buttonPressEvent LOW secondPressDue \<and> sessionModeActive secondPressDue \<and>
   manualUnlocked secondPressDue \<and>
   trace (checkManualUnlock LOW secondPressDue) = trace secondPressDue @ manualUnlockEvents \<and>
   buttonPressEvent LOW thirdPressDue \<and> unlockedByAuth thirdPressDue \<and>
   manualUnlocked thirdPressDue \<and> \<not> sessionModeActive thirdPressDue \<and>
   solenoidPin (checkManualUnlock LOW thirdPressDue) = solenoidPin thirdPressDue \<and>
   trace (checkManualUnlock LOW thirdPressDue) = trace thirdPressDue @ buttonRejectedEvents"
proof -
  have a: "buttonPressEvent LOW secondPressDue" by code_simp
  have b: "sessionModeActive secondPressDue" by code_simp
  have c: "manualUnlocked secondPressDue" by code_simp
  have d: "buttonPressEvent LOW thirdPressDue" by code_simp
  have e: "unlockedByAuth thirdPressDue" by code_simp
  have f: "manualUnlocked thirdPressDue" by code_simp
  have g: "\<not> sessionModeActive thirdPressDue" by code_simp
  note second = manual_override_one_shot_or_session [of started LOW secondPressDue]
  note third = manual_override_one_shot_or_session [of started LOW thirdPressDue]
  have granted: "checkManualUnlock LOW secondPressDue =
      secondPressDue\<lparr>solenoidPin := LOW, ledGreen := LOW, ledRed := HIGH,
        lastActivityTime := clock secondPressDue, manualUnlocked := True, buttonState := LOW,
        clock := clock secondPressDue + UNLOCK_TIME,
        trace := trace secondPressDue @ manualUnlockEvents\<rparr>"
    using second a b by blast
  have refused: "checkManualUnlock LOW thirdPressDue =
      thirdPressDue\<lparr>ledGreen := LOW, ledRed := HIGH, lastActivityTime := clock thirdPressDue,
        buttonState := LOW, clock := clock thirdPressDue + 600,
        trace := trace thirdPressDue @ buttonRejectedEvents\<rparr>"
    using third d f g by blast
  have r1: "trace (checkManualUnlock LOW secondPressDue) =
      trace secondPressDue @ manualUnlockEvents"
    by (subst granted) simp
  have r2: "solenoidPin (checkManualUnlock LOW thirdPressDue) = solenoidPin thirdPressDue"
    by (subst refused) simp
  have r3: "trace (checkManualUnlock LOW thirdPressDue) =
      trace thirdPressDue @ buttonRejectedEvents"
    by (subst refused) simp
  show ?thesis by (intro conjI a b c d e f g r1 r2 r3)
qed

text \<open>
  The claim as written fails: in the run \<open>secondPressDue\<close> card 1 is accepted once, the unlock
  timer re-locks the door, a first press runs the blocking unlock and uses up the one
  press (\<open>manualUnlocked\<close> is set), the button is released and pressed again with no card
  in between. The second press is not turned down: it runs the blocking unlock again.
\<close>

theorem second_press_unlocks_again_counterexample:
  "trace firstPress = trace (elapse 60 (checkManualUnlock LOW relocked)) @ manualUnlockEvents \<and>
   manualUnlocked secondPressDue \<and> \<not> isDoorUnlocked secondPressDue \<and>
   buttonPressEvent LOW secondPressDue \<and>
   trace (checkManualUnlock LOW secondPressDue) = trace secondPressDue @ manualUnlockEvents \<and>
   PinWrite SOLENOID_PIN HIGH \<in> set manualUnlockEvents"
  by code_simp

subsection \<open>The unlock timer runs out\<close>

text \<open>
  Claim C3, as the code has it. When the unlock timer runs out, \<^verbatim>\<open>handleUnlockTimer\<close>
  releases the solenoid, switches the timer off and stamps the activity time (with the
  LEDs and the output of \<^verbatim>\<open>lockDoor\<close>); \<open>unlockedByAuth\<close>, \<open>manualUnlocked\<close> and the session
  flag keep the values they had. No function of the sketch ever resets \<open>unlockedByAuth\<close>.
\<close>

theorem handleUnlockTimer_expiry_keeps_auth_flags:
  assumes "unlockTimerActive s" and "clock s - unlockStartTime s \<ge> UNLOCK_TIME"
  shows "handleUnlockTimer s =
           s\<lparr>solenoidPin := LOW, ledGreen := LOW, ledRed := HIGH, unlockTimerActive := False,
             lastActivityTime := clock s, trace := trace s @ lockDoorEvents\<rparr>
       \<and> \<not> isDoorUnlocked (handleUnlockTimer s)
       \<and> \<not> unlockTimerActive (handleUnlockTimer s)
       \<and> unlockedByAuth (handleUnlockTimer s) = unlockedByAuth s
       \<and> manualUnlocked (handleUnlockTimer s) = manualUnlocked s
       \<and> sessionModeActive (handleUnlockTimer s) = sessionModeActive s"
  using assms by (simp add: handleUnlockTimer_def lockDoor_eq isDoorUnlocked_def digitalRead_def)

theorem handleUnlockTimer_expiry_keeps_auth_flags_witness:
  "unlockTimerActive timedOut \<and> clock timedOut - unlockStartTime timedOut \<ge> UNLOCK_TIME \<and>
   unlockedByAuth timedOut \<and> \<not> isDoorUnlocked (handleUnlockTimer timedOut) \<and>
   unlockedByAuth (handleUnlockTimer timedOut)"
proof -
  have a: "unlockTimerActive timedOut" by code_simp
  have b: "clock timedOut - unlockStartTime timedOut \<ge> UNLOCK_TIME" by code_simp
  have c: "unlockedByAuth timedOut" by code_simp
  note relock = handleUnlockTimer_expiry_keeps_auth_flags [OF a b]
  from relock have d: "\<not> isDoorUnlocked (handleUnlockTimer timedOut)" by blast
  from relock have "unlockedByAuth (handleUnlockTimer timedOut) = unlockedByAuth timedOut"
    by blast
  with c have e: "unlockedByAuth (handleUnlockTimer timedOut)" by simp
  from a b c d e show ?thesis by blast
qed

text \<open>The claim as written fails: ten seconds after card 1 was accepted, the timer re-locks
  the door and \<open>unlockedByAuth\<close> is still set.\<close>

theorem relock_keeps_unlockedByAuth_counterexample:
  "isDoorUnlocked timedOut \<and> unlockTimerActive timedOut \<and>
   clock timedOut - unlockStartTime timedOut \<ge> UNLOCK_TIME \<and>
   \<not> isDoorUnlocked (handleUnlockTimer timedOut) \<and>
   \<not> unlockTimerActive (handleUnlockTimer timedOut) \<and>
   unlockedByAuth (handleUnlockTimer timedOut)"
  by code_simp

subsection \<open>Button presses while the door is unlocked\<close>

text \<open>
  Claim C4, as the code has it. In the RFID sketch \<^verbatim>\<open>checkManualUnlock\<close> returns at once
  when the solenoid reads unlocked: nothing changes, whatever the flags hold.
  \<^verbatim>\<open>lock_v1\<close> has no such test. There a low button with \<open>unlockedByAuth\<close> set and
  \<open>manualUnlocked\<close> clear runs the blocking re-unlock whatever the solenoid reads, and
  leaves the door locked with \<open>manualUnlocked\<close> set; with the flags otherwise, or the
  button high, the block changes nothing.
\<close>

theorem button_while_unlocked:
  "(isDoorUnlocked s \<longrightarrow> checkManualUnlock reading s = s)
 \<and> (v1_unlockedByAuth w \<and> \<not> v1_manualUnlocked w \<longrightarrow>
      v1_manualUnlock LOW w =
        w\<lparr>v1_solenoidPin := LOW, v1_manualUnlocked := True, v1_clock := v1_clock w + 3300,
          v1_trace := v1_trace w @ v1_manualUnlockEvents\<rparr>)
 \<and> (\<not> (v1_unlockedByAuth w \<and> \<not> v1_manualUnlocked w) \<longrightarrow> v1_manualUnlock reading w = w)
 \<and> v1_manualUnlock HIGH w = w"
  by (simp add: checkManualUnlock_def v1_manualUnlock_eq) (simp add: v1_manualUnlock_def)
theorem button_while_unlocked_witness:
  "isDoorUnlocked accepted \<and> checkManualUnlock LOW accepted = accepted \<and>
   v1_unlockedByAuth v1_open \<and> \<not> v1_manualUnlocked v1_open \<and>
   v1_solenoidPin (v1_manualUnlock LOW v1_open) = LOW \<and>
   v1_manualUnlock LOW v1_started = v1_started"
proof -
  have a: "isDoorUnlocked accepted" by code_simp
  have b: "v1_unlockedByAuth v1_open \<and> \<not> v1_manualUnlocked v1_open" by code_simp
  have c: "\<not> (v1_unlockedByAuth v1_started \<and> \<not> v1_manualUnlocked v1_started)" by code_simp
  from button_while_unlocked [of accepted LOW] a
  have r1: "checkManualUnlock LOW accepted = accepted" by blast
  from button_while_unlocked [of _ _ v1_open] b
  have "v1_manualUnlock LOW v1_open =
        v1_open\<lparr>v1_solenoidPin := LOW, v1_manualUnlocked := True,
          v1_clock := v1_clock v1_open + 3300,
          v1_trace := v1_trace v1_open @ v1_manualUnlockEvents\<rparr>" by blast
  then have r2: "v1_solenoidPin (v1_manualUnlock LOW v1_open) = LOW" by simp
  from button_while_unlocked [of _ LOW v1_started] c
  have r3: "v1_manualUnlock LOW v1_started = v1_started" by blast
  from a b r1 r2 r3 show ?thesis by blast
qed

text \<open>The claim as written fails in \<^verbatim>\<open>lock_v1\<close>: one second after the serial command \<open>u\<close>
  unlocked the door, a pass of the loop with the button held down ends with the door locked
  and \<open>manualUnlocked\<close> set.\<close>

theorem v1_button_while_unlocked_counterexample:
  "v1_solenoidPin v1_open = HIGH \<and> \<not> v1_manualUnlocked v1_open \<and>
   v1_solenoidPin (v1_loop heldDown v1_open) = LOW \<and>
   v1_manualUnlocked (v1_loop heldDown v1_open)"
  by code_simp

subsection \<open>Power management\<close>

text \<open>The whole loop, with the call of \<^verbatim>\<open>checkSleep\<close> that ends it set apart.\<close>

lemma loop_checkSleep:
  "loop inp s =
     checkSleep (handleSessionTimer (handleUnlockTimer (checkManualUnlock (buttonIn inp)
       (checkSerial (serialIn inp) (checkRFID (rfidIn inp) s)))))"
  by (simp add: loop_def Let_def)

text \<open>\<^verbatim>\<open>checkSleep\<close> does suspend a locked, idle sketch: the property below is not empty.\<close>

lemma checkSleep_suspends_locked_idle:
  assumes "\<not> isDoorUnlocked s" "sleepEnabled s" "clock s - lastActivityTime s > SLEEP_AFTER_TIME"
  shows "checkSleep s = s\<lparr>ledGreen := LOW, ledRed := HIGH, clock := clock s + 100,
      lastActivityTime := clock s + 100, adcEnabled := True,
      trace := trace s @
        [Println ''Entering sleep mode to save power...'', Delay 100,
         PinWrite LED_GREEN_PIN LOW, PinWrite LED_RED_PIN LOW, Suspend,
         PinWrite LED_GREEN_PIN LOW, PinWrite LED_RED_PIN HIGH,
         Println ''Waking up from sleep mode'']\<rparr>"
  using assms by (simp add: checkSleep_def enterSleepMode_def io_defs)

text \<open>
  Claim C5. While the solenoid reads unlocked, \<^verbatim>\<open>checkSleep\<close> returns the state as it
  found it, whatever the counter, the activity stamp and the sleep switch hold: it does
  not call \<^verbatim>\<open>enterSleepMode\<close>, and nothing (no \<open>Suspend\<close>) is added to the trace. So a pass
  of the loop that reaches \<^verbatim>\<open>checkSleep\<close> with the door unlocked ends there.
\<close>

theorem checkSleep_never_suspends_unlocked:
  assumes "isDoorUnlocked s"
  shows "checkSleep (s\<lparr>clock := t, lastActivityTime := a, sleepEnabled := e\<rparr>) =
           s\<lparr>clock := t, lastActivityTime := a, sleepEnabled := e\<rparr>
       \<and> checkSleep s = s
       \<and> Suspend \<notin> set (drop (length (trace s)) (trace (checkSleep s)))"
  using assms by (simp add: checkSleep_def isDoorUnlocked_def digitalRead_def)

theorem checkSleep_never_suspends_unlocked_witness:
  "isDoorUnlocked accepted \<and>
   1000000 - 800 > SLEEP_AFTER_TIME \<and>
   checkSleep (accepted\<lparr>clock := 1000000, lastActivityTime := 800, sleepEnabled := True\<rparr>) =
     accepted\<lparr>clock := 1000000, lastActivityTime := 800, sleepEnabled := True\<rparr>"
proof -
  have a: "isDoorUnlocked accepted" by code_simp
  have b: "1000000 - 800 > SLEEP_AFTER_TIME" by (simp add: SLEEP_AFTER_TIME_def)
  have c: "checkSleep (accepted\<lparr>clock := 1000000, lastActivityTime := 800, sleepEnabled := True\<rparr>) =
     accepted\<lparr>clock := 1000000, lastActivityTime := 800, sleepEnabled := True\<rparr>"
    by (rule checkSleep_never_suspends_unlocked [OF a, THEN conjunct1])
  show ?thesis by (intro conjI a b c)
qed

lemma loop_awake_while_unlocked:
  assumes "isDoorUnlocked (handleSessionTimer (handleUnlockTimer (checkManualUnlock (buttonIn inp)
       (checkSerial (serialIn inp) (checkRFID (rfidIn inp) s)))))"
  shows "loop inp s = handleSessionTimer (handleUnlockTimer (checkManualUnlock (buttonIn inp)
       (checkSerial (serialIn inp) (checkRFID (rfidIn inp) s))))"
  using assms unfolding loop_checkSleep
  by (simp add: checkSleep_def isDoorUnlocked_def digitalRead_def)

subsection \<open>Serial commands while the door is unlocked\<close>

lemma checkSerial_one_unlocked:
  assumes "isDoorUnlocked s"
  shows "checkSerial [command] s =
     (if command = CHR ''l'' \<or> command = CHR ''L''
      then lockDoor (s\<lparr>lastActivityTime := clock s\<rparr>)
      else if command = CHR ''s'' \<or> command = CHR ''S''
      then printStatus (s\<lparr>lastActivityTime := clock s\<rparr>)
      else s\<lparr>lastActivityTime := clock s\<rparr>)"
  using assms by (simp add: isDoorUnlocked_def digitalRead_def Let_def)

text \<open>
  Claim C6, as the code has it. In the RFID sketch, while the door is unlocked,
  \<^verbatim>\<open>checkSerial\<close> acts on \<open>l\<close>/\<open>L\<close> (it runs \<^verbatim>\<open>lockDoor\<close>) and on \<open>s\<close>/\<open>S\<close> (it runs
  \<^verbatim>\<open>printStatus\<close>) only. Every other character, \<open>u\<close>, \<open>m\<close> and \<open>z\<close> among them, writes
  nothing and changes one variable: \<open>lastActivityTime\<close>, which is set to the counter for
  every character received, before the character is looked at.
  \<^verbatim>\<open>lock_v1\<close> does not look at the solenoid when it reads a command: \<open>u\<close>/\<open>U\<close> runs
  \<^verbatim>\<open>unlockDoor\<close> again, \<open>l\<close>/\<open>L\<close> locks, and characters other than the three commands
  change nothing.
\<close>

theorem serial_while_unlocked:
  "(isDoorUnlocked s \<and> command \<notin> {CHR ''l'', CHR ''L'', CHR ''s'', CHR ''S''} \<longrightarrow>
      checkSerial [command] s = s\<lparr>lastActivityTime := clock s\<rparr>)
 \<and> (isDoorUnlocked s \<and> command \<in> {CHR ''l'', CHR ''L''} \<longrightarrow>
      checkSerial [command] s = lockDoor (s\<lparr>lastActivityTime := clock s\<rparr>))
 \<and> (isDoorUnlocked s \<and> command \<in> {CHR ''s'', CHR ''S''} \<longrightarrow>
      checkSerial [command] s = printStatus (s\<lparr>lastActivityTime := clock s\<rparr>))
 \<and> (command \<in> {CHR ''u'', CHR ''U''} \<longrightarrow> v1_checkSerial (Some command) w = v1_unlockDoor w)
 \<and> (command \<in> {CHR ''l'', CHR ''L''} \<longrightarrow> v1_checkSerial (Some command) w = v1_lockDoor w)
 \<and> (command \<notin> {CHR ''u'', CHR ''U'', CHR ''l'', CHR ''L'', CHR ''s'', CHR ''S''} \<longrightarrow>
      v1_checkSerial (Some command) w = w)"
proof -
  have a: "isDoorUnlocked s \<and> command \<notin> {CHR ''l'', CHR ''L'', CHR ''s'', CHR ''S''} \<longrightarrow>
      checkSerial [command] s = s\<lparr>lastActivityTime := clock s\<rparr>"
    by (simp add: checkSerial_one_unlocked del: checkSerial.simps)
  have b: "isDoorUnlocked s \<and> command \<in> {CHR ''l'', CHR ''L''} \<longrightarrow>
      checkSerial [command] s = lockDoor (s\<lparr>lastActivityTime := clock s\<rparr>)"
    by (simp add: checkSerial_one_unlocked del: checkSerial.simps)
  have c: "isDoorUnlocked s \<and> command \<in> {CHR ''s'', CHR ''S''} \<longrightarrow>
      checkSerial [command] s = printStatus (s\<lparr>lastActivityTime := clock s\<rparr>)"
    by (auto simp: checkSerial_one_unlocked simp del: checkSerial.simps)
  have d: "command \<in> {CHR ''u'', CHR ''U''} \<longrightarrow> v1_checkSerial (Some command) w = v1_unlockDoor w"
    by (simp add: v1_checkSerial_def)
  have e: "command \<in> {CHR ''l'', CHR ''L''} \<longrightarrow> v1_checkSerial (Some command) w = v1_lockDoor w"
    by (auto simp: v1_checkSerial_def)
  have f: "command \<notin> {CHR ''u'', CHR ''U'', CHR ''l'', CHR ''L'', CHR ''s'', CHR ''S''} \<longrightarrow>
      v1_checkSerial (Some command) w = w"
    by (simp add: v1_checkSerial_def)
  from a b c d e f show ?thesis by blast
qed

theorem serial_while_unlocked_witness:
  "isDoorUnlocked openTwoSeconds \<and>
   CHR ''z'' \<notin> {CHR ''l'', CHR ''L'', CHR ''s'', CHR ''S''} \<and>
   sleepEnabled (checkSerial ''z'' openTwoSeconds) = sleepEnabled openTwoSeconds \<and>
   trace (checkSerial ''z'' openTwoSeconds) = trace openTwoSeconds \<and>
   checkSerial ''l'' openTwoSeconds =
     lockDoor (openTwoSeconds\<lparr>lastActivityTime := clock openTwoSeconds\<rparr>) \<and>
   checkSerial ''s'' openTwoSeconds =
     printStatus (openTwoSeconds\<lparr>lastActivityTime := clock openTwoSeconds\<rparr>) \<and>
   v1_checkSerial (Some (CHR ''u'')) v1_open = v1_unlockDoor v1_open \<and>
   v1_checkSerial (Some (CHR ''l'')) v1_open = v1_lockDoor v1_open \<and>
   v1_checkSerial (Some (CHR ''z'')) v1_open = v1_open"
proof -
  have a: "isDoorUnlocked openTwoSeconds" by code_simp
  have b: "CHR ''z'' \<notin> {CHR ''l'', CHR ''L'', CHR ''s'', CHR ''S''}" by simp
  have c: "CHR ''u'' \<in> {CHR ''u'', CHR ''U''}" by simp
  have d: "CHR ''z'' \<notin> {CHR ''u'', CHR ''U'', CHR ''l'', CHR ''L'', CHR ''s'', CHR ''S''}" by simp
  have e: "CHR ''l'' \<in> {CHR ''l'', CHR ''L''}" by simp
  have f: "CHR ''s'' \<in> {CHR ''s'', CHR ''S''}" by simp
  note z = serial_while_unlocked [of openTwoSeconds "CHR ''z''" v1_open]
  note u = serial_while_unlocked [of openTwoSeconds "CHR ''u''" v1_open]
  note l = serial_while_unlocked [of openTwoSeconds "CHR ''l''" v1_open]
  note st = serial_while_unlocked [of openTwoSeconds "CHR ''s''" v1_open]
  have r0: "checkSerial ''z'' openTwoSeconds =
        openTwoSeconds\<lparr>lastActivityTime := clock openTwoSeconds\<rparr>"
    by (rule z [THEN conjunct1, THEN mp, OF conjI [OF a b]])
  have r1: "sleepEnabled (checkSerial ''z'' openTwoSeconds) = sleepEnabled openTwoSeconds"
    by (subst r0) simp
  have r2: "trace (checkSerial ''z'' openTwoSeconds) = trace openTwoSeconds"
    by (subst r0) simp
  have r3: "checkSerial ''l'' openTwoSeconds =
     lockDoor (openTwoSeconds\<lparr>lastActivityTime := clock openTwoSeconds\<rparr>)"
    by (rule l [THEN conjunct2, THEN conjunct1, THEN mp, OF conjI [OF a e]])
  have r4: "checkSerial ''s'' openTwoSeconds =
     printStatus (openTwoSeconds\<lparr>lastActivityTime := clock openTwoSeconds\<rparr>)"
    by (rule st [THEN conjunct2, THEN conjunct2, THEN conjunct1, THEN mp, OF conjI [OF a f]])
  have r5: "v1_checkSerial (Some (CHR ''u'')) v1_open = v1_unlockDoor v1_open"
    by (rule u [THEN conjunct2, THEN conjunct2, THEN conjunct2, THEN conjunct1, THEN mp, OF c])
  have r6: "v1_checkSerial (Some (CHR ''l'')) v1_open = v1_lockDoor v1_open"
    by (rule l [THEN conjunct2, THEN conjunct2, THEN conjunct2, THEN conjunct2, THEN conjunct1,
          THEN mp, OF e])
  have r7: "v1_checkSerial (Some (CHR ''z'')) v1_open = v1_open"
    by (rule z [THEN conjunct2, THEN conjunct2, THEN conjunct2, THEN conjunct2, THEN conjunct2,
          THEN mp, OF d])
  show ?thesis by (intro conjI a b r1 r2 r3 r4 r5 r6 r7)
qed

text \<open>The claim as written fails. In the RFID sketch the command \<open>u\<close>, sent two seconds
  after card 1 unlocked the door, moves \<open>lastActivityTime\<close> from 800 to 2800. In
  \<^verbatim>\<open>lock_v1\<close> the command \<open>u\<close>, sent one second after the door was unlocked, is carried
  out: the unlock timer starts again and the two messages of \<^verbatim>\<open>unlockDoor\<close> are printed.\<close>

theorem serial_while_unlocked_counterexample:
  "isDoorUnlocked openTwoSeconds \<and>
   lastActivityTime openTwoSeconds = 800 \<and>
   lastActivityTime (checkSerial ''u'' openTwoSeconds) = 2800 \<and>
   v1_solenoidPin v1_open = HIGH \<and>
   v1_unlockStartTime v1_open = 0 \<and>
   v1_unlockStartTime (v1_checkSerial (Some (CHR ''u'')) v1_open) = 1000 \<and>
   v1_trace (v1_checkSerial (Some (CHR ''u'')) v1_open) \<noteq> v1_trace v1_open"
  by code_simp

text \<open>
  Claim C7. The command \<open>l\<close> or \<open>L\<close>, received while the door is unlocked, runs
  \<^verbatim>\<open>lockDoor\<close>: the solenoid reads locked and the unlock timer is off, whatever the counter
  and the start time of the timer hold, and the timer does not expire at any later time
  \<open>t\<close>.
\<close>

theorem serial_lock_while_unlocked:
  assumes "isDoorUnlocked s" and "command = CHR ''l'' \<or> command = CHR ''L''"
  shows "checkSerial [command] s = lockDoor (s\<lparr>lastActivityTime := clock s\<rparr>)
       \<and> \<not> isDoorUnlocked (checkSerial [command] s)
       \<and> \<not> unlockTimerActive (checkSerial [command] s)
       \<and> \<not> unlockTimerExpired ((checkSerial [command] s)\<lparr>clock := t\<rparr>)"
  using assms
  by (auto simp: lockDoor_eq isDoorUnlocked_def digitalRead_def unlockTimerExpired_def Let_def)

theorem serial_lock_while_unlocked_witness:
  "isDoorUnlocked openTwoSeconds \<and> unlockTimerActive openTwoSeconds \<and>
   clock openTwoSeconds - unlockStartTime openTwoSeconds = 2000 \<and>
   \<not> isDoorUnlocked (checkSerial ''l'' openTwoSeconds) \<and>
   \<not> unlockTimerActive (checkSerial ''l'' openTwoSeconds)"
proof -
  have a: "isDoorUnlocked openTwoSeconds" by code_simp
  have b: "unlockTimerActive openTwoSeconds \<and>
    clock openTwoSeconds - unlockStartTime openTwoSeconds = 2000" by code_simp
  note locks = serial_lock_while_unlocked [where command = "CHR ''l''", OF a disjI1 [OF refl]]
  from locks have c: "\<not> isDoorUnlocked (checkSerial ''l'' openTwoSeconds)" by blast
  from locks have d: "\<not> unlockTimerActive (checkSerial ''l'' openTwoSeconds)" by blast
  from a b c d show ?thesis by blast
qed

subsection \<open>The unlock timer as a function of time\<close>

text \<open>The tests of the two sketches, by the names given to them above.\<close>

lemma handleUnlockTimer_expired:
  "handleUnlockTimer s =
     (if unlockTimerExpired s then (lockDoor s)\<lparr>unlockTimerActive := False\<rparr> else s)"
  by (simp add: handleUnlockTimer_def unlockTimerExpired_def)

lemma v1_handleUnlockTimer_expired:
  "v1_handleUnlockTimer w =
     (if v1_unlockTimerExpired w then (v1_lockDoor w)\<lparr>v1_unlockTimerActive := False\<rparr> else w)"
  by (simp add: v1_handleUnlockTimer_def v1_unlockTimerExpired_def)

lemma millis_elapsed:
  assumes "T \<le> t" and "t - T < 2 ^ 32"
  shows "unat (millis t - millis T) = t - T"
proof -
  have "millis t - millis T = (of_nat (t - T) :: ulong)"
    using assms(1) by (simp add: millis_def)
  then show ?thesis
    using assms(2) by (simp add: unat_of_nat take_bit_nat_eq_self)
qed

lemma armed_expired_iff:
  assumes "T \<le> t" and "t < T + 2 ^ 32"
  shows "unlockTimerExpired ((unlockDoor (s\<lparr>clock := millis T\<rparr>))\<lparr>clock := millis t\<rparr>)
           \<longleftrightarrow> T + unat UNLOCK_TIME \<le> t"
proof -
  have "unlockTimerExpired ((unlockDoor (s\<lparr>clock := millis T\<rparr>))\<lparr>clock := millis t\<rparr>)
          \<longleftrightarrow> UNLOCK_TIME \<le> millis t - millis T"
    by (simp add: unlockTimerExpired_def unlockDoor_eq)
  also have "\<dots> \<longleftrightarrow> unat UNLOCK_TIME \<le> t - T"
    using assms by (simp add: word_le_nat_alt millis_elapsed)
  also have "\<dots> \<longleftrightarrow> T + unat UNLOCK_TIME \<le> t"
    using assms(1) by auto
  finally show ?thesis .
qed

lemma v1_armed_expired_iff:
  assumes "T \<le> t" and "t < T + 2 ^ 32"
  shows "v1_unlockTimerExpired ((v1_unlockDoor (w\<lparr>v1_clock := millis T\<rparr>))\<lparr>v1_clock := millis t\<rparr>)
           \<longleftrightarrow> T + unat v1_unlockTime \<le> t"
proof -
  have "v1_unlockTimerExpired ((v1_unlockDoor (w\<lparr>v1_clock := millis T\<rparr>))\<lparr>v1_clock := millis t\<rparr>)
          \<longleftrightarrow> v1_unlockTime \<le> millis t - millis T"
    by (simp add: v1_unlockTimerExpired_def v1_unlockDoor_eq)
  also have "\<dots> \<longleftrightarrow> unat v1_unlockTime \<le> t - T"
    using assms by (simp add: word_le_nat_alt millis_elapsed)
  also have "\<dots> \<longleftrightarrow> T + unat v1_unlockTime \<le> t"
    using assms(1) by auto
  finally show ?thesis .
qed

text \<open>
  Claim C8, as the code has it. Times are milliseconds since start and the counter is the
  time modulo \<open>2 ^ 32\<close>. For a timer armed by \<^verbatim>\<open>unlockDoor\<close> at time \<open>T\<close>, the test
  \<^verbatim>\<open>millis() - unlockStartTime >= UNLOCK_TIME\<close> is false at every time \<open>t\<close> with
  \<open>T \<le> t < T + D\<close> and true at every \<open>t\<close> with \<open>T + D \<le> t < T + 2 ^ 32\<close>, where \<open>D\<close> is
  10000 in the RFID sketch and 3000 in \<^verbatim>\<open>lock_v1\<close>. After \<^verbatim>\<open>lockDoor\<close> the timer is off: it
  is expired at no time, and the timer check leaves the state alone.
\<close>

theorem unlock_timer_expiry_window:
  "(T \<le> t \<and> t < T + unat UNLOCK_TIME \<longrightarrow>
      \<not> unlockTimerExpired ((unlockDoor (s\<lparr>clock := millis T\<rparr>))\<lparr>clock := millis t\<rparr>))
 \<and> (T + unat UNLOCK_TIME \<le> t \<and> t < T + 2 ^ 32 \<longrightarrow>
      unlockTimerExpired ((unlockDoor (s\<lparr>clock := millis T\<rparr>))\<lparr>clock := millis t\<rparr>))
 \<and> \<not> unlockTimerExpired ((lockDoor s)\<lparr>clock := millis t\<rparr>)
 \<and> handleUnlockTimer ((lockDoor s)\<lparr>clock := millis t\<rparr>) = (lockDoor s)\<lparr>clock := millis t\<rparr>
 \<and> (T \<le> t \<and> t < T + unat v1_unlockTime \<longrightarrow>
      \<not> v1_unlockTimerExpired ((v1_unlockDoor (w\<lparr>v1_clock := millis T\<rparr>))\<lparr>v1_clock := millis t\<rparr>))
 \<and> (T + unat v1_unlockTime \<le> t \<and> t < T + 2 ^ 32 \<longrightarrow>
      v1_unlockTimerExpired ((v1_unlockDoor (w\<lparr>v1_clock := millis T\<rparr>))\<lparr>v1_clock := millis t\<rparr>))
 \<and> \<not> v1_unlockTimerExpired ((v1_lockDoor w)\<lparr>v1_clock := millis t\<rparr>)
 \<and> v1_handleUnlockTimer ((v1_lockDoor w)\<lparr>v1_clock := millis t\<rparr>) =
      (v1_lockDoor w)\<lparr>v1_clock := millis t\<rparr>"
proof -
  have big: "unat UNLOCK_TIME < 2 ^ 32" "unat v1_unlockTime < 2 ^ 32"
    by (simp_all add: UNLOCK_TIME_def v1_unlockTime_def)
  have a: "T \<le> t \<and> t < T + unat UNLOCK_TIME \<longrightarrow>
      \<not> unlockTimerExpired ((unlockDoor (s\<lparr>clock := millis T\<rparr>))\<lparr>clock := millis t\<rparr>)"
    using big by (auto simp: armed_expired_iff)
  have b: "T + unat UNLOCK_TIME \<le> t \<and> t < T + 2 ^ 32 \<longrightarrow>
      unlockTimerExpired ((unlockDoor (s\<lparr>clock := millis T\<rparr>))\<lparr>clock := millis t\<rparr>)"
    by (auto simp: armed_expired_iff)
  have c: "\<not> unlockTimerExpired ((lockDoor s)\<lparr>clock := millis t\<rparr>)"
    by (simp add: unlockTimerExpired_def lockDoor_eq)
  have d: "handleUnlockTimer ((lockDoor s)\<lparr>clock := millis t\<rparr>) = (lockDoor s)\<lparr>clock := millis t\<rparr>"
    using c by (simp add: handleUnlockTimer_expired)
  have a': "T \<le> t \<and> t < T + unat v1_unlockTime \<longrightarrow>
      \<not> v1_unlockTimerExpired ((v1_unlockDoor (w\<lparr>v1_clock := millis T\<rparr>))\<lparr>v1_clock := millis t\<rparr>)"
    using big by (auto simp: v1_armed_expired_iff)
  have b': "T + unat v1_unlockTime \<le> t \<and> t < T + 2 ^ 32 \<longrightarrow>
      v1_unlockTimerExpired ((v1_unlockDoor (w\<lparr>v1_clock := millis T\<rparr>))\<lparr>v1_clock := millis t\<rparr>)"
    by (auto simp: v1_armed_expired_iff)
  have c': "\<not> v1_unlockTimerExpired ((v1_lockDoor w)\<lparr>v1_clock := millis t\<rparr>)"
    by (simp add: v1_unlockTimerExpired_def v1_lockDoor_eq)
  have d': "v1_handleUnlockTimer ((v1_lockDoor w)\<lparr>v1_clock := millis t\<rparr>) =
      (v1_lockDoor w)\<lparr>v1_clock := millis t\<rparr>"
    using c' by (simp add: v1_handleUnlockTimer_expired)
  from a b c d a' b' c' d' show ?thesis by blast
qed

theorem unlock_timer_expiry_window_witness:
  "(800::nat) \<le> 10799 \<and> 10799 < 800 + unat UNLOCK_TIME \<and>
   \<not> unlockTimerExpired ((unlockDoor (started\<lparr>clock := millis 800\<rparr>))\<lparr>clock := millis 10799\<rparr>) \<and>
   800 + unat UNLOCK_TIME \<le> 10800 \<and> (10800::nat) < 800 + 2 ^ 32 \<and>
   unlockTimerExpired ((unlockDoor (started\<lparr>clock := millis 800\<rparr>))\<lparr>clock := millis 10800\<rparr>) \<and>
   (10799::nat) < 800 + unat v1_unlockTime + 7000 \<and>
   v1_unlockTimerExpired ((v1_unlockDoor (v1_started\<lparr>v1_clock := millis 800\<rparr>))\<lparr>v1_clock := millis 3800\<rparr>) \<and>
   \<not> v1_unlockTimerExpired ((v1_unlockDoor (v1_started\<lparr>v1_clock := millis 800\<rparr>))\<lparr>v1_clock := millis 3799\<rparr>)"
proof -
  have h1: "(800::nat) \<le> 10799 \<and> 10799 < 800 + unat UNLOCK_TIME"
    by (simp add: UNLOCK_TIME_def)
  have h2: "800 + unat UNLOCK_TIME \<le> 10800 \<and> (10800::nat) < 800 + 2 ^ 32"
    by (simp add: UNLOCK_TIME_def)
  have h3: "(800::nat) \<le> 3799 \<and> 3799 < 800 + unat v1_unlockTime"
    by (simp add: v1_unlockTime_def)
  have h4: "800 + unat v1_unlockTime \<le> 3800 \<and> (3800::nat) < 800 + 2 ^ 32"
    by (simp add: v1_unlockTime_def)
  have h5: "(10799::nat) < 800 + unat v1_unlockTime + 7000"
    by (simp add: v1_unlockTime_def)
  from unlock_timer_expiry_window [of 800 10799 started] h1
  have r1: "\<not> unlockTimerExpired ((unlockDoor (started\<lparr>clock := millis 800\<rparr>))\<lparr>clock := millis 10799\<rparr>)"
    by blast
  from unlock_timer_expiry_window [of 800 10800 started] h2
  have r2: "unlockTimerExpired ((unlockDoor (started\<lparr>clock := millis 800\<rparr>))\<lparr>clock := millis 10800\<rparr>)"
    by blast
  from unlock_timer_expiry_window [of 800 3799 _ v1_started] h3
  have r3: "\<not> v1_unlockTimerExpired ((v1_unlockDoor (v1_started\<lparr>v1_clock := millis 800\<rparr>))\<lparr>v1_clock := millis 3799\<rparr>)"
    by blast
  from unlock_timer_expiry_window [of 800 3800 _ v1_started] h4
  have r4: "v1_unlockTimerExpired ((v1_unlockDoor (v1_started\<lparr>v1_clock := millis 800\<rparr>))\<lparr>v1_clock := millis 3800\<rparr>)"
    by blast
  from h1 h2 h5 r1 r2 r3 r4 show ?thesis by blast
qed

text \<open>The claim as written fails once the counter has gone round: for a timer armed at
  800 ms, the time \<open>800 + 2 ^ 32\<close> is later than \<open>T + D\<close>, and the test is false there.\<close>

theorem unlock_timer_wraps_counterexample:
  "(800::nat) + unat UNLOCK_TIME \<le> 800 + 2 ^ 32 \<and>
   \<not> unlockTimerExpired
       ((unlockDoor (started\<lparr>clock := millis 800\<rparr>))\<lparr>clock := millis (800 + 2 ^ 32)\<rparr>)"
  by (simp add: unlockTimerExpired_def unlockDoor_eq millis_def UNLOCK_TIME_def)

subsection \<open>The session timer runs out\<close>

text \<open>
  Claim C9. When the session timer runs out, \<^verbatim>\<open>handleSessionTimer\<close> clears
  \<open>sessionModeActive\<close> and prints one line; every other field of the state, the solenoid,
  the unlock timer, \<open>unlockedByAuth\<close> and \<open>manualUnlocked\<close> among them, is as it was.
\<close>

theorem handleSessionTimer_expiry_frame:
  assumes "sessionModeActive s" and "clock s - sessionStartTime s \<ge> SESSION_DURATION"
  shows "handleSessionTimer s =
           s\<lparr>sessionModeActive := False, trace := trace s @ [Println ''Session mode expired'']\<rparr>
       \<and> \<not> sessionModeActive (handleSessionTimer s)
       \<and> solenoidPin (handleSessionTimer s) = solenoidPin s
       \<and> unlockTimerActive (handleSessionTimer s) = unlockTimerActive s
       \<and> unlockStartTime (handleSessionTimer s) = unlockStartTime s
       \<and> unlockedByAuth (handleSessionTimer s) = unlockedByAuth s
       \<and> manualUnlocked (handleSessionTimer s) = manualUnlocked s"
  using assms by (simp add: handleSessionTimer_def io_defs)
theorem handleSessionTimer_expiry_frame_witness:
  "sessionModeActive sessionOver \<and>
   clock sessionOver - sessionStartTime sessionOver \<ge> SESSION_DURATION \<and>
   \<not> sessionModeActive (handleSessionTimer sessionOver) \<and>
   unlockedByAuth (handleSessionTimer sessionOver) \<and>
   solenoidPin (handleSessionTimer sessionOver) = LOW"
proof -
  have a: "sessionModeActive sessionOver" by code_simp
  have b: "clock sessionOver - sessionStartTime sessionOver \<ge> SESSION_DURATION" by code_simp
  have c: "unlockedByAuth sessionOver \<and> solenoidPin sessionOver = LOW" by code_simp
  note expiry = handleSessionTimer_expiry_frame [OF a b]
  from expiry have d: "\<not> sessionModeActive (handleSessionTimer sessionOver)" by blast
  from expiry have "unlockedByAuth (handleSessionTimer sessionOver) = unlockedByAuth sessionOver"
    by blast
  with c have e: "unlockedByAuth (handleSessionTimer sessionOver)" by simp
  from expiry have "solenoidPin (handleSessionTimer sessionOver) = solenoidPin sessionOver"
    by blast
  with c have f: "solenoidPin (handleSessionTimer sessionOver) = LOW" by simp
  from a b d e f show ?thesis by blast
qed

subsection \<open>Locking twice\<close>

text \<open>A later call stamps the activity time afresh and changes nothing else.\<close>

lemma lockDoor_again_later:
  "vars (lockDoor ((lockDoor s)\<lparr>clock := t\<rparr>)) =
   vars ((lockDoor s)\<lparr>clock := t, lastActivityTime := t\<rparr>)"
  by (simp add: lockDoor_eq vars_def)

text \<open>
  Claim C10. \<^verbatim>\<open>lockDoor\<close> is straight-line code: from every state it returns with the
  solenoid reading locked and the unlock timer off. Run a second time, it changes no
  variable and no pin (\<open>vars\<close> is the same); it only writes the same pin levels and
  prints the same two lines again. The same holds in \<^verbatim>\<open>lock_v1\<close>.
\<close>

theorem lockDoor_idempotent:
  "\<not> isDoorUnlocked (lockDoor s) \<and> \<not> unlockTimerActive (lockDoor s) \<and>
   vars (lockDoor (lockDoor s)) = vars (lockDoor s) \<and>
   trace (lockDoor (lockDoor s)) = trace (lockDoor s) @ lockDoorEvents \<and>
   v1_solenoidPin (v1_lockDoor w) = LOW \<and> \<not> v1_unlockTimerActive (v1_lockDoor w) \<and>
   v1_lockDoor (v1_lockDoor w) =
     (v1_lockDoor w)\<lparr>v1_trace := v1_trace (v1_lockDoor w) @
        [Println ''Locking door...'', PinWrite SOLENOID_PIN LOW, Println ''Door locked'']\<rparr>"
  by (simp add: lockDoor_eq v1_lockDoor_eq vars_def isDoorUnlocked_def digitalRead_def)

end
